theory Spec2Isabelle
  imports Main
begin

section \<open>Strings\<close>

text \<open>
  A JavaScript string is the sequence of its UTF-16 code units, and a code unit is taken
  as a number. \<^verbatim>\<open>===\<close> on strings is equality of the sequences. A string literal of
  the source is ASCII text, \<open>js\<close> of the Isabelle string.
\<close>

type_synonym jsString = "nat list"

definition js :: "string \<Rightarrow> jsString" where
  "js s = map of_char s"

text \<open>
  \<^verbatim>\<open>s.includes(q)\<close>: \<open>q\<close> occurs in \<open>s\<close> at some position. The empty string
  occurs in every string.
\<close>

fun includes_str :: "'a list \<Rightarrow> 'a list \<Rightarrow> bool" where
  "includes_str [] q = (q = [])"
| "includes_str (c # cs) q = (take (length q) (c # cs) = q \<or> includes_str cs q)"

text \<open>The truth value JavaScript gives an optional string: absent and empty are falsy.\<close>

fun truthy :: "jsString option \<Rightarrow> bool" where
  "truthy None = False"
| "truthy (Some s) = (s \<noteq> [])"

text \<open>
  \<^verbatim>\<open>String.prototype.toLowerCase\<close> is a built-in of the language, which folds every
  cased letter of Unicode. The helpers that call it take it as the parameter
  \<open>toLowerCase\<close>, and what is proved of them holds for every function in its place.
  One thing is fixed: the lower case of the empty string is the empty string.
\<close>

definition lowerCase :: "(jsString \<Rightarrow> jsString) \<Rightarrow> jsString \<Rightarrow> jsString" where
  "lowerCase toLowerCase s = (if s = [] then [] else toLowerCase s)"

section \<open>The task tree\<close>

text \<open>
  The interface \<^verbatim>\<open>Task\<close>: the fields \<^verbatim>\<open>id\<close>, \<^verbatim>\<open>title\<close>, \<^verbatim>\<open>isCompleted\<close>,
  \<^verbatim>\<open>priority\<close>, \<^verbatim>\<open>createdAt\<close> and the optional \<^verbatim>\<open>subtasks\<close>.
  A missing \<^verbatim>\<open>subtasks\<close> property and one holding \<^verbatim>\<open>undefined\<close> are both \<open>None\<close>:
  every read of the property in the source sees \<^verbatim>\<open>undefined\<close> in both cases.
  An array, also the empty one, is \<open>Some\<close>: arrays are truthy in JavaScript.
  The priority is kept as the string it is at run time, since the cast
  \<^verbatim>\<open>priority as Priority\<close> checks nothing.
\<close>

datatype task = Task (id_task: jsString) (title: jsString) (isCompleted: bool)
  (priority: jsString) (createdAt: int) (subtasks: "task list option")

text \<open>The enum \<^verbatim>\<open>Priority\<close>: its three members are these strings.\<close>

definition LOW :: jsString where "LOW = js ''low''"
definition MEDIUM :: jsString where "MEDIUM = js ''medium''"
definition HIGH :: jsString where "HIGH = js ''high''"

section \<open>The recursive helpers\<close>

text \<open>
  \<^verbatim>\<open>toggleTaskRecursive\<close>: a map over the list; a task with the id is returned
  with its flag flipped and its subtasks as they are, any other task with its subtasks,
  when it has the property, mapped in turn.
\<close>

fun toggleTaskRecursive :: "task list \<Rightarrow> jsString \<Rightarrow> task list" where
  "toggleTaskRecursive [] i = []"
| "toggleTaskRecursive (Task tid ttl c p ca subs # rest) i =
     (if tid = i then Task tid ttl (\<not> c) p ca subs
      else case subs of
             Some l \<Rightarrow> Task tid ttl c p ca (Some (toggleTaskRecursive l i))
           | None \<Rightarrow> Task tid ttl c p ca subs)
     # toggleTaskRecursive rest i"

text \<open>
  \<^verbatim>\<open>deleteTaskRecursive\<close>: the filter drops the tasks with the id, the map rebuilds
  every task kept with its subtasks filtered in turn (\<^verbatim>\<open>undefined\<close> when it has none).
\<close>

fun deleteTaskRecursive :: "task list \<Rightarrow> jsString \<Rightarrow> task list" where
  "deleteTaskRecursive [] i = []"
| "deleteTaskRecursive (Task tid ttl c p ca subs # rest) i =
     (if tid \<noteq> i then
        [Task tid ttl c p ca
           (case subs of Some l \<Rightarrow> Some (deleteTaskRecursive l i) | None \<Rightarrow> None)]
      else [])
     @ deleteTaskRecursive rest i"

text \<open>
  The match of \<^verbatim>\<open>addSubtaskRecursive\<close>: the id is the query, or the lower-cased
  title includes the lower-cased query.
\<close>

definition isMatch :: "(jsString \<Rightarrow> jsString) \<Rightarrow> jsString \<Rightarrow> task \<Rightarrow> bool" where
  "isMatch toLowerCase parentQuery t \<longleftrightarrow>
     id_task t = parentQuery \<or>
     includes_str (lowerCase toLowerCase (title t)) (lowerCase toLowerCase parentQuery)"

text \<open>
  The closure \<^verbatim>\<open>updateInfo\<close> of \<^verbatim>\<open>addSubtaskRecursive\<close>. It reads and writes the
  variable \<^verbatim>\<open>added\<close> of the enclosing call, which the model passes in and returns.
  The map visits the tasks from left to right and the callback finishes a task, its
  subtasks included, before the next one.
\<close>

fun updateInfo ::
  "(jsString \<Rightarrow> jsString) \<Rightarrow> jsString \<Rightarrow> task \<Rightarrow> task list \<Rightarrow> bool \<Rightarrow> task list \<times> bool" where
  "updateInfo toLowerCase parentQuery newSubtask [] added = ([], added)"
| "updateInfo toLowerCase parentQuery newSubtask (Task tid ttl c p ca subs # rest) added =
     (if isMatch toLowerCase parentQuery (Task tid ttl c p ca subs) \<and> \<not> added then
        (case updateInfo toLowerCase parentQuery newSubtask rest True of
           (rest', added') \<Rightarrow>
             (Task tid ttl c p ca
                (case subs of Some l \<Rightarrow> Some (l @ [newSubtask]) | None \<Rightarrow> Some [newSubtask])
              # rest', added'))
      else case subs of
             Some l \<Rightarrow>
               (case updateInfo toLowerCase parentQuery newSubtask l added of
                  (l', added1) \<Rightarrow>
                    (case updateInfo toLowerCase parentQuery newSubtask rest added1 of
                       (rest', added2) \<Rightarrow> (Task tid ttl c p ca (Some l') # rest', added2)))
           | None \<Rightarrow>
               (case updateInfo toLowerCase parentQuery newSubtask rest added of
                  (rest', added') \<Rightarrow> (Task tid ttl c p ca subs # rest', added')))"

text \<open>\<^verbatim>\<open>addSubtaskRecursive\<close> returns \<^verbatim>\<open>{ updatedTasks, success: added }\<close>.\<close>

definition addSubtaskRecursive ::
  "(jsString \<Rightarrow> jsString) \<Rightarrow> task list \<Rightarrow> jsString \<Rightarrow> task \<Rightarrow> task list \<times> bool" where
  "addSubtaskRecursive toLowerCase tasks parentQuery newSubtask =
     updateInfo toLowerCase parentQuery newSubtask tasks False"

text \<open>
  The two tests of \<^verbatim>\<open>findAndRemoveRecursive\<close>. Each starts with the truth value of
  the optional argument, so an absent or empty argument matches nothing.
\<close>

definition matchId :: "jsString option \<Rightarrow> task \<Rightarrow> bool" where
  "matchId taskId t \<longleftrightarrow> truthy taskId \<and> Some (id_task t) = taskId"

definition matchTitle :: "(jsString \<Rightarrow> jsString) \<Rightarrow> jsString option \<Rightarrow> task \<Rightarrow> bool" where
  "matchTitle toLowerCase searchTitle t \<longleftrightarrow>
     truthy searchTitle \<and>
     (case searchTitle of
        Some s \<Rightarrow> includes_str (lowerCase toLowerCase (title t)) (lowerCase toLowerCase s)
      | None \<Rightarrow> False)"

text \<open>
  The closure \<^verbatim>\<open>filterList\<close>: a \<^verbatim>\<open>reduce\<close> from the empty array. A matching task
  counts one and is left out, subtasks and all; any other task is pushed onto the
  accumulator with its subtasks filtered. The counter \<^verbatim>\<open>count\<close> of the enclosing call
  is passed in and returned.
\<close>

fun filterList ::
  "(jsString \<Rightarrow> jsString) \<Rightarrow> jsString option \<Rightarrow> jsString option \<Rightarrow> task list \<Rightarrow> task list \<Rightarrow> nat
     \<Rightarrow> task list \<times> nat" where
  "filterList toLowerCase taskId searchTitle [] acc count = (acc, count)"
| "filterList toLowerCase taskId searchTitle (Task tid ttl c p ca subs # rest) acc count =
     (if matchId taskId (Task tid ttl c p ca subs)
         \<or> matchTitle toLowerCase searchTitle (Task tid ttl c p ca subs)
      then filterList toLowerCase taskId searchTitle rest acc (count + 1)
      else case subs of
             Some l \<Rightarrow>
               (case filterList toLowerCase taskId searchTitle l [] count of
                  (l', count1) \<Rightarrow>
                    filterList toLowerCase taskId searchTitle rest
                      (acc @ [Task tid ttl c p ca (Some l')]) count1)
           | None \<Rightarrow>
               filterList toLowerCase taskId searchTitle rest
                 (acc @ [Task tid ttl c p ca subs]) count)"

definition findAndRemoveRecursive ::
  "(jsString \<Rightarrow> jsString) \<Rightarrow> task list \<Rightarrow> jsString option \<Rightarrow> jsString option
     \<Rightarrow> task list \<times> nat" where
  "findAndRemoveRecursive toLowerCase tasks taskId searchTitle =
     filterList toLowerCase taskId searchTitle tasks [] 0"

text \<open>
  The closure \<^verbatim>\<open>updateList\<close> of \<^verbatim>\<open>updateStatusRecursive\<close>, with the variable
  \<^verbatim>\<open>found\<close> passed in and returned. A task with the id is returned with the flag set
  and its subtasks as they are; they are not visited.
\<close>

fun updateList :: "jsString \<Rightarrow> bool \<Rightarrow> task list \<Rightarrow> bool \<Rightarrow> task list \<times> bool" where
  "updateList taskId completed [] found = ([], found)"
| "updateList taskId completed (Task tid ttl c p ca subs # rest) found =
     (if tid = taskId then
        (case updateList taskId completed rest True of
           (rest', found') \<Rightarrow> (Task tid ttl completed p ca subs # rest', found'))
      else case subs of
             Some l \<Rightarrow>
               (case updateList taskId completed l found of
                  (l', found1) \<Rightarrow>
                    (case updateList taskId completed rest found1 of
                       (rest', found2) \<Rightarrow> (Task tid ttl c p ca (Some l') # rest', found2)))
           | None \<Rightarrow>
               (case updateList taskId completed rest found of
                  (rest', found') \<Rightarrow> (Task tid ttl c p ca subs # rest', found')))"

definition updateStatusRecursive :: "task list \<Rightarrow> jsString \<Rightarrow> bool \<Rightarrow> task list \<times> bool" where
  "updateStatusRecursive tasks taskId completed = updateList taskId completed tasks False"

section \<open>Tool execution\<close>

text \<open>
  The arguments of a tool call are typed \<^verbatim>\<open>any\<close>. The model takes a field that is
  present at the type its function declaration gives it; any field may be missing, and
  so may the whole object. A missing field reads as \<^verbatim>\<open>undefined\<close>, and destructuring a
  missing object throws. A call carries a name, the arguments and an id.
\<close>

record args =
  arg_title :: "jsString option"
  arg_priority :: "jsString option"
  arg_parentQuery :: "jsString option"
  arg_taskId :: "jsString option"
  arg_searchTitle :: "jsString option"
  arg_completed :: "bool option"

record functionCall =
  call_name :: jsString
  call_args :: "args option"
  call_id :: jsString

datatype jsError = TypeError

text \<open>
  What the platform provides. The body of \<^verbatim>\<open>generateId\<close> is not part of the sources, and
  \<^verbatim>\<open>Date.now\<close> is the clock: \<open>generateId e k\<close> is what the call number \<open>k\<close> made by the
  tool loop returns, and likewise for the clock. \<open>toLowerCase e\<close> is the built-in of that
  name.
\<close>

record env =
  generateId :: "nat \<Rightarrow> jsString"
  dateNow :: "nat \<Rightarrow> int"
  toLowerCase :: "jsString \<Rightarrow> jsString"

text \<open>
  The object literal that \<^verbatim>\<open>executeAddTask\<close> and \<^verbatim>\<open>executeAddSubtask\<close> build. Its
  \<^verbatim>\<open>isCompleted\<close> is \<^verbatim>\<open>false\<close> and its \<^verbatim>\<open>subtasks\<close> the empty array; the title is
  \<^verbatim>\<open>undefined\<close> when the call has none, and then the object is no \<^verbatim>\<open>Task\<close>.
\<close>

record newTaskObject =
  new_id :: jsString
  new_title :: "jsString option"
  new_priority :: jsString
  new_createdAt :: int

definition asTask :: "newTaskObject \<Rightarrow> task option" where
  "asTask n =
     (case new_title n of
        Some t \<Rightarrow> Some (Task (new_id n) t False (new_priority n) (new_createdAt n) (Some []))
      | None \<Rightarrow> None)"

text \<open>\<^verbatim>\<open>(priority as Priority) || Priority.MEDIUM\<close>: an absent or empty priority is medium.\<close>

definition priorityOrMedium :: "jsString option \<Rightarrow> jsString" where
  "priorityOrMedium given =
     (case given of Some p \<Rightarrow> if p \<noteq> [] then p else MEDIUM | None \<Rightarrow> MEDIUM)"

subsection \<open>The updaters given to React\<close>

text \<open>
  The four functions that the tools pass to \<^verbatim>\<open>setTasks\<close>, each with the values its
  closure holds:
  \<^verbatim>\<open>prev => [newTask, ...prev]\<close>,
  \<^verbatim>\<open>prev => addSubtaskRecursive(prev, parentQuery, newSubtask).updatedTasks\<close>,
  \<^verbatim>\<open>prev => findAndRemoveRecursive(prev, taskId, searchTitle).updatedTasks\<close> and
  \<^verbatim>\<open>prev => updateStatusRecursive(prev, taskId, completed).updatedTasks\<close>.
\<close>

datatype tasksUpdater =
    AddTaskUpdater newTaskObject
  | AddSubtaskUpdater "jsString option" newTaskObject
  | RemoveTaskUpdater "jsString option" "jsString option"
  | UpdateStatusUpdater "jsString option" "bool option"

text \<open>
  An updater run on a forest returns the next forest. Two things can come in the way
  when a required argument was missing. The updater throws: \<^verbatim>\<open>parentQuery.toLowerCase()\<close>
  on \<^verbatim>\<open>undefined\<close>, at the first task visited. Or the array returned is no forest of
  \<^verbatim>\<open>Task\<close> any more, because it holds an object whose title or completion flag is
  \<^verbatim>\<open>undefined\<close>; the helpers are typed for \<^verbatim>\<open>Task[]\<close> and the model follows the
  array no further.
\<close>

datatype fault = UpdaterThrew | NotTaskArray

text \<open>
  Where the new subtask has no title, the helper runs with the title empty in its place:
  it never reads the new subtask, and with no match the array it returns holds no place
  for it. Likewise a missing completion flag with \<^verbatim>\<open>false\<close> in its place. A missing id
  is \<^verbatim>\<open>undefined\<close>, which is the id of no task, so \<^verbatim>\<open>updateList\<close> rebuilds every task
  as it is.
\<close>

fun runUpdater :: "(jsString \<Rightarrow> jsString) \<Rightarrow> tasksUpdater \<Rightarrow> task list \<Rightarrow> fault + task list" where
  "runUpdater lc (AddTaskUpdater newTask) prev =
     (case asTask newTask of
        Some t \<Rightarrow> Inr (t # prev)
      | None \<Rightarrow> Inl NotTaskArray)"
| "runUpdater lc (AddSubtaskUpdater parentQuery newSubtask) prev =
     (case parentQuery of
        None \<Rightarrow> if prev = [] then Inr [] else Inl UpdaterThrew
      | Some q \<Rightarrow>
          (case asTask newSubtask of
             Some t \<Rightarrow> Inr (fst (addSubtaskRecursive lc prev q t))
           | None \<Rightarrow>
               (case addSubtaskRecursive lc prev q
                       (Task (new_id newSubtask) [] False (new_priority newSubtask)
                          (new_createdAt newSubtask) (Some [])) of
                  (updatedTasks, success) \<Rightarrow>
                    if success then Inl NotTaskArray else Inr updatedTasks)))"
| "runUpdater lc (RemoveTaskUpdater taskId searchTitle) prev =
     Inr (fst (findAndRemoveRecursive lc prev taskId searchTitle))"
| "runUpdater lc (UpdateStatusUpdater taskId completed) prev =
     (case taskId of
        None \<Rightarrow> Inr prev
      | Some i \<Rightarrow>
          (case completed of
             Some b \<Rightarrow> Inr (fst (updateStatusRecursive prev i b))
           | None \<Rightarrow>
               (case updateStatusRecursive prev i False of
                  (updatedTasks, found) \<Rightarrow>
                    if found then Inl NotTaskArray else Inr updatedTasks)))"

text \<open>
  React runs the queued updaters in the order of the \<^verbatim>\<open>setTasks\<close> calls, each on the
  forest the one before returned.
\<close>

fun runQueue :: "(jsString \<Rightarrow> jsString) \<Rightarrow> tasksUpdater list \<Rightarrow> task list \<Rightarrow> fault + task list" where
  "runQueue lc [] prev = Inr prev"
| "runQueue lc (u # us) prev =
     (case runUpdater lc u prev of
        Inl x \<Rightarrow> Inl x
      | Inr next \<Rightarrow> runQueue lc us next)"

subsection \<open>The tools\<close>

text \<open>The projection \<^verbatim>\<open>getTasks\<close> returns, and the three shapes of a tool result.\<close>

datatype simpleTask = SimpleTask (s_id: jsString) (s_title: jsString) (s_priority: jsString)
  (s_completed: bool) (s_subtasks: "simpleTask list")

datatype toolResult = Result jsString | Error jsString | TaskList "simpleTask list"

record functionResponse =
  resp_name :: jsString
  resp_response :: toolResult
  resp_id :: jsString

text \<open>
  The state of one run of the tool loop: the updaters handed to \<^verbatim>\<open>setTasks\<close> so far,
  the texts of the log messages handed to \<^verbatim>\<open>setMessages\<close>, how often the loop has
  called \<^verbatim>\<open>generateId\<close> and \<^verbatim>\<open>Date.now\<close>, the array \<^verbatim>\<open>responseParts\<close>, and whether
  the loop was left by an exception. The loop runs without a pause inside a handler that
  was resumed after an \<^verbatim>\<open>await\<close>: React queues every update and runs the updaters when
  it next renders, after the loop.
\<close>

record loopState =
  tasksUpdaters :: "tasksUpdater list"
  logTexts :: "jsString list"
  idCalls :: nat
  nowCalls :: nat
  responseParts :: "functionResponse list"
  thrown :: bool

text \<open>
  Inside a template string: the apostrophe, a number as its decimal digits, and an
  optional string, which is printed as \<^verbatim>\<open>undefined\<close> when it is missing.
\<close>

definition apostrophe :: jsString where
  "apostrophe = js [CHR 0x27]"

fun showNat :: "nat \<Rightarrow> string" where
  "showNat n =
     (if n < 10 then [''0123456789'' ! n]
      else showNat (n div 10) @ [''0123456789'' ! (n mod 10)])"

definition inTemplate :: "jsString option \<Rightarrow> jsString" where
  "inTemplate v = (case v of Some s \<Rightarrow> s | None \<Rightarrow> js ''undefined'')"

text \<open>
  \<^verbatim>\<open>executeAddTask\<close>. The destructuring \<^verbatim>\<open>const { title, priority } = args\<close> throws a
  \<^verbatim>\<open>TypeError\<close> when there is no object. The new task is built at once, the updater
  that puts it in front is queued, and the result names the new id.
\<close>

fun executeAddTask :: "env \<Rightarrow> args option \<Rightarrow> loopState \<Rightarrow> jsError + loopState \<times> toolResult" where
  "executeAddTask e None st = Inl TypeError"
| "executeAddTask e (Some a) st =
     (let newTask = \<lparr>new_id = generateId e (idCalls st), new_title = arg_title a,
                      new_priority = priorityOrMedium (arg_priority a),
                      new_createdAt = dateNow e (nowCalls st)\<rparr>
      in Inr (st\<lparr>tasksUpdaters := tasksUpdaters st @ [AddTaskUpdater newTask],
                 idCalls := idCalls st + 1, nowCalls := nowCalls st + 1\<rparr>,
              Result (js ''Task added successfully with ID: '' @ new_id newTask)))"

text \<open>
  The other three tools declare a variable (\<^verbatim>\<open>success\<close>, \<^verbatim>\<open>removedCount\<close>,
  \<^verbatim>\<open>found\<close>), pass \<^verbatim>\<open>setTasks\<close> an updater that assigns it, and read it in the next
  statement. The updater has not run by then, so the variable is read with the value it
  was declared with.
\<close>

fun executeAddSubtask :: "env \<Rightarrow> args option \<Rightarrow> loopState \<Rightarrow> jsError + loopState \<times> toolResult" where
  "executeAddSubtask e None st = Inl TypeError"
| "executeAddSubtask e (Some a) st =
     (let newSubtask = \<lparr>new_id = generateId e (idCalls st), new_title = arg_title a,
                         new_priority = priorityOrMedium (arg_priority a),
                         new_createdAt = dateNow e (nowCalls st)\<rparr>;
          success = False
      in Inr (st\<lparr>tasksUpdaters :=
                    tasksUpdaters st @ [AddSubtaskUpdater (arg_parentQuery a) newSubtask],
                 idCalls := idCalls st + 1, nowCalls := nowCalls st + 1\<rparr>,
              if success
              then Result (js ''Subtask '' @ apostrophe @ inTemplate (arg_title a) @ apostrophe
                           @ js '' added to parent matching '' @ apostrophe
                           @ inTemplate (arg_parentQuery a) @ apostrophe @ js ''.'')
              else Result (js ''Could not find a parent task matching '' @ apostrophe
                           @ inTemplate (arg_parentQuery a) @ apostrophe
                           @ js '' to add the subtask to.'')))"

fun executeRemoveTask :: "args option \<Rightarrow> loopState \<Rightarrow> jsError + loopState \<times> toolResult" where
  "executeRemoveTask None st = Inl TypeError"
| "executeRemoveTask (Some a) st =
     (let removedCount = (0 :: nat)
      in Inr (st\<lparr>tasksUpdaters :=
                    tasksUpdaters st @ [RemoveTaskUpdater (arg_taskId a) (arg_searchTitle a)]\<rparr>,
              if removedCount > 0
              then Result (js ''Successfully removed '' @ js (showNat removedCount)
                           @ js '' task(s).'')
              else Result (js ''No tasks found matching that criteria.'')))"

fun executeUpdateTaskStatus :: "args option \<Rightarrow> loopState \<Rightarrow> jsError + loopState \<times> toolResult" where
  "executeUpdateTaskStatus None st = Inl TypeError"
| "executeUpdateTaskStatus (Some a) st =
     (let found = False
      in Inr (st\<lparr>tasksUpdaters :=
                    tasksUpdaters st @ [UpdateStatusUpdater (arg_taskId a) (arg_completed a)]\<rparr>,
              if found
              then Result (js ''Task '' @ inTemplate (arg_taskId a) @ js '' marked as ''
                           @ (if arg_completed a = Some True then js ''completed''
                              else js ''incomplete'') @ js ''.'')
              else Result (js ''Task with ID '' @ inTemplate (arg_taskId a)
                           @ js '' not found.'')))"

text \<open>
  \<^verbatim>\<open>executeGetTasks\<close> and its closure \<^verbatim>\<open>simplify\<close>: the function projects the forest
  it is given.
\<close>

fun simplify :: "task list \<Rightarrow> simpleTask list" where
  "simplify [] = []"
| "simplify (Task tid ttl c p ca subs # rest) =
     SimpleTask tid ttl p c (case subs of Some l \<Rightarrow> simplify l | None \<Rightarrow> [])
     # simplify rest"

definition executeGetTasks :: "task list \<Rightarrow> toolResult" where
  "executeGetTasks currentTasks = TaskList (simplify currentTasks)"

section \<open>The tool loop of the chat handler\<close>

text \<open>
  The body of the loop \<^verbatim>\<open>for (const call of functionCalls)\<close> in
  \<^verbatim>\<open>handleSendMessage\<close>. The result starts as \<^verbatim>\<open>{ error: "Unknown tool" }\<close>, the log
  message is handed to \<^verbatim>\<open>setMessages\<close>, then the name selects the tool.
  \<open>closureTasks\<close> is the constant \<^verbatim>\<open>tasks\<close> of the render that created the handler:
  \<^verbatim>\<open>getTasks\<close> is given that value, the other tools go through \<^verbatim>\<open>setTasks\<close>. When
  the tool throws, the loop is left with nothing pushed.
\<close>

definition executeCall :: "env \<Rightarrow> task list \<Rightarrow> functionCall \<Rightarrow> loopState \<Rightarrow> loopState" where
  "executeCall e closureTasks call st =
     (let st1 = st\<lparr>logTexts := logTexts st @ [js ''Executing: '' @ call_name call @ js ''...'']\<rparr>
      in case (if call_name call = js ''addTask'' then executeAddTask e (call_args call) st1
               else if call_name call = js ''addSubtask''
                 then executeAddSubtask e (call_args call) st1
               else if call_name call = js ''removeTask''
                 then executeRemoveTask (call_args call) st1
               else if call_name call = js ''updateTaskStatus''
                 then executeUpdateTaskStatus (call_args call) st1
               else if call_name call = js ''getTasks''
                 then Inr (st1, executeGetTasks closureTasks)
               else Inr (st1, Error (js ''Unknown tool''))) of
           Inl TypeError \<Rightarrow> st1\<lparr>thrown := True\<rparr>
         | Inr (st2, toolResult) \<Rightarrow>
             st2\<lparr>responseParts := responseParts st2 @
                    [\<lparr>resp_name = call_name call, resp_response = toolResult,
                      resp_id = call_id call\<rparr>]\<rparr>)"

text \<open>
  The loop over the calls of one reply, in their order. An exception leaves the loop: the
  calls after it are not executed (the handler catches it and ends the round with its
  apology, and \<^verbatim>\<open>responseParts\<close> is never sent).
\<close>

fun executeCalls :: "env \<Rightarrow> task list \<Rightarrow> functionCall list \<Rightarrow> loopState \<Rightarrow> loopState" where
  "executeCalls e closureTasks [] st = st"
| "executeCalls e closureTasks (call # calls) st =
     (if thrown st then st
      else executeCalls e closureTasks calls (executeCall e closureTasks call st))"

text \<open>
  The tool part of \<^verbatim>\<open>handleSendMessage\<close>, run by the handler of a render whose forest
  is \<open>tasks\<close>: the loop starts with nothing queued and \<^verbatim>\<open>responseParts\<close> empty.
\<close>

definition startOfLoop :: loopState where
  "startOfLoop =
     \<lparr>tasksUpdaters = [], logTexts = [], idCalls = 0, nowCalls = 0, responseParts = [],
      thrown = False\<rparr>"

definition handleSendMessage_calls :: "env \<Rightarrow> functionCall list \<Rightarrow> task list \<Rightarrow> loopState" where
  "handleSendMessage_calls e functionCalls tasks = executeCalls e tasks functionCalls startOfLoop"

text \<open>
  The forest after the round: React runs the updaters the loop queued on the forest of
  the state. (The render that follows sorts the top-level array in place for display;
  \<open>forestAfter\<close> is the array before that sort.)
\<close>

definition forestAfter :: "env \<Rightarrow> task list \<Rightarrow> loopState \<Rightarrow> fault + task list" where
  "forestAfter e tasks st = runQueue (toLowerCase e) (tasksUpdaters st) tasks"

section \<open>Traversal order\<close>

text \<open>The subtasks of a task as a list: empty when the task has none.\<close>

definition children :: "task \<Rightarrow> task list" where
  "children t = (case subtasks t of Some l \<Rightarrow> l | None \<Rightarrow> [])"

text \<open>
  The nodes of a forest depth first: a task, then the nodes of its subtasks, then the
  rest of the list.
\<close>

fun preorder :: "task list \<Rightarrow> task list" where
  "preorder [] = []"
| "preorder (Task tid ttl c p ca subs # rest) =
     Task tid ttl c p ca subs
     # (case subs of Some l \<Rightarrow> preorder l | None \<Rightarrow> []) @ preorder rest"

definition ids :: "task list \<Rightarrow> jsString list" where
  "ids forest = map id_task (preorder forest)"

text \<open>
  A node without its subtree: the six fields, with the subtasks, when the task has the
  property, emptied.
\<close>

fun shallow :: "task \<Rightarrow> task" where
  "shallow (Task tid ttl c p ca subs) =
     Task tid ttl c p ca (case subs of Some l \<Rightarrow> Some [] | None \<Rightarrow> None)"

text \<open>
  The nodes of a forest in the same order, each without its subtree and paired with its
  ancestors, outermost first. Two forests with the same list are the same forest.
\<close>

fun walk :: "task list \<Rightarrow> task list \<Rightarrow> (task list \<times> task) list" where
  "walk anc [] = []"
| "walk anc (Task tid ttl c p ca subs # rest) =
     (anc, shallow (Task tid ttl c p ca subs))
     # (case subs of
          Some l \<Rightarrow> walk (anc @ [shallow (Task tid ttl c p ca subs)]) l
        | None \<Rightarrow> [])
     @ walk anc rest"

text \<open>The position of the first element of a list that satisfies a test.\<close>

fun firstMatch :: "('a \<Rightarrow> bool) \<Rightarrow> 'a list \<Rightarrow> nat option" where
  "firstMatch P [] = None"
| "firstMatch P (x # xs) =
     (if P x then Some 0 else case firstMatch P xs of Some k \<Rightarrow> Some (Suc k) | None \<Rightarrow> None)"

text \<open>
  The forest with a task appended to the subtasks of the node at position \<open>k\<close> of the
  depth-first order, and nothing else changed. Position 0 is the first task of the list;
  the positions after it go to its subtasks as far as they have nodes, then to the rest.
\<close>

fun appendToNode :: "nat \<Rightarrow> task \<Rightarrow> task list \<Rightarrow> task list" where
  "appendToNode k newTask [] = []"
| "appendToNode k newTask (Task tid ttl c p ca subs # rest) =
     (case subs of
        None \<Rightarrow>
          if k = 0 then Task tid ttl c p ca (Some [newTask]) # rest
          else Task tid ttl c p ca subs # appendToNode (k - 1) newTask rest
      | Some l \<Rightarrow>
          if k = 0 then Task tid ttl c p ca (Some (l @ [newTask])) # rest
          else if k - 1 < length (preorder l)
            then Task tid ttl c p ca (Some (appendToNode (k - 1) newTask l)) # rest
          else Task tid ttl c p ca subs
               # appendToNode (k - 1 - length (preorder l)) newTask rest)"

text \<open>A node with the completion flag set when it has the id, as it is otherwise.\<close>

fun setCompleted :: "jsString \<Rightarrow> bool \<Rightarrow> task \<Rightarrow> task" where
  "setCompleted i b (Task tid ttl c p ca subs) =
     (if tid = i then Task tid ttl b p ca subs else Task tid ttl c p ca subs)"

text \<open>The test of \<^verbatim>\<open>filterList\<close>: either of its two matches.\<close>

definition matches ::
  "(jsString \<Rightarrow> jsString) \<Rightarrow> jsString option \<Rightarrow> jsString option \<Rightarrow> task \<Rightarrow> bool" where
  "matches lc taskId searchTitle t \<longleftrightarrow> matchId taskId t \<or> matchTitle lc searchTitle t"

text \<open>
  A node of \<open>walk\<close> survives a removal when neither it nor an ancestor matches; it is a
  top match when it matches and no ancestor does.
\<close>

definition survives :: "(task \<Rightarrow> bool) \<Rightarrow> task list \<times> task \<Rightarrow> bool" where
  "survives P at \<longleftrightarrow> \<not> P (snd at) \<and> list_all (\<lambda>a. \<not> P a) (fst at)"

definition topMatch :: "(task \<Rightarrow> bool) \<Rightarrow> task list \<times> task \<Rightarrow> bool" where
  "topMatch P at \<longleftrightarrow> P (snd at) \<and> list_all (\<lambda>a. \<not> P a) (fst at)"

section \<open>The declared schema\<close>




definition noArgs :: args where
  "noArgs = \<lparr>arg_title = None, arg_priority = None, arg_parentQuery = None, arg_taskId = None,
              arg_searchTitle = None, arg_completed = None\<rparr>"




section \<open>Sample inputs\<close>

text \<open>
  The default forest of \<^verbatim>\<open>App\<close>, with the ids 1, 2 and 3 for the generated ones and
  0 for the time.
\<close>

definition defaultTasks :: "task list" where
  "defaultTasks =
     [Task (js ''1'') (js ''Review project requirements'') False HIGH 0
        (Some [Task (js ''2'') (js ''Check email specs'') False MEDIUM 0 None]),
      Task (js ''3'') (js ''Buy coffee beans'') True LOW 0 None]"

text \<open>
  A lower-casing function to run the helpers with: it folds the letters A to Z and the
  letter E with acute accent (code unit 201, to 233), and leaves every other code unit.
\<close>

definition latinLowerChar :: "char \<Rightarrow> char" where
  "latinLowerChar c =
     (case map_of (zip (''ABCDEFGHIJKLMNOPQRSTUVWXYZ'' @ [CHR 0xC9])
                       (''abcdefghijklmnopqrstuvwxyz'' @ [CHR 0xE9])) c of
        Some l \<Rightarrow> l
      | None \<Rightarrow> c)"

definition latinLower :: "jsString \<Rightarrow> jsString" where
  "latinLower s = map (\<lambda>u. if u < 256 then of_char (latinLowerChar (char_of u)) else u) s"

text \<open>
  A forest where the title match holds at two depths, once only through the accented
  letter: task 1 (CAFE with the accent, in capitals) and its subtask 2 both have it,
  task 3 below task 1 has not, task 5 has it below task 4, which has not.
\<close>

definition cafeTasks :: "task list" where
  "cafeTasks =
     [Task (js ''1'') (js (''CAF'' @ [CHR 0xC9])) False MEDIUM 0
        (Some [Task (js ''2'') (js (''caf'' @ [CHR 0xE9] @ '' au lait'')) False MEDIUM 0 None,
               Task (js ''3'') (js ''cup'') False MEDIUM 0 None]),
      Task (js ''4'') (js ''milk'') False MEDIUM 0
        (Some [Task (js ''5'') (js (''Caf'' @ [CHR 0xE9] @ '' noir'')) True MEDIUM 0 None])]"

text \<open>
  An id supply and a clock to run the loop with: the ids \<^verbatim>\<open>id0\<close>, \<^verbatim>\<open>id1\<close>, ... and
  the times 0, 1, ...
\<close>

definition sampleEnv :: env where
  "sampleEnv =
     \<lparr>generateId = (\<lambda>k. js (''id'' @ showNat k)), dateNow = (\<lambda>k. int k),
      toLowerCase = latinLower\<rparr>"

section \<open>Properties\<close>

subsection \<open>Code units of ASCII text\<close>

lemma js_inject [simp]: "js a = js b \<longleftrightarrow> a = b"
  unfolding js_def by (simp add: inj_map_eq_map inj_on_def)

lemma js_Nil [simp]: "js a = [] \<longleftrightarrow> a = []"
  by (simp add: js_def)

lemma js_append: "js a @ js b = js (a @ b)"
  by (simp add: js_def)

lemma includes_js: "includes_str (js s) (js q) = includes_str s q"
proof (induction s)
  case Nil
  then show ?case by (simp add: js_def)
next
  case (Cons c cs)
  have "take (length (js q)) (js (c # cs)) = js (take (length q) (c # cs))"
    by (simp only: js_def take_map length_map)
  moreover have "js (c # cs) = of_char c # js cs"
    by (simp add: js_def)
  ultimately show ?case using Cons
    by (simp only: includes_str.simps js_inject)
qed

lemma lowerCase_latin_js: "lowerCase latinLower (js s) = js (map latinLowerChar s)"
  by (simp add: lowerCase_def latinLower_def js_def)

subsection \<open>Helpers that find nothing\<close>

lemma toggle_absent: "i \<notin> set (ids forest) \<Longrightarrow> toggleTaskRecursive forest i = forest"
  by (induction forest rule: preorder.induct) (auto simp: ids_def split: option.splits)

lemma delete_absent: "i \<notin> set (ids forest) \<Longrightarrow> deleteTaskRecursive forest i = forest"
  by (induction forest rule: preorder.induct) (auto simp: ids_def split: option.splits)

lemma updateList_absent:
  "i \<notin> set (ids forest) \<Longrightarrow> updateList i b forest found = (forest, found)"
  by (induction forest arbitrary: found rule: preorder.induct)
     (auto simp: ids_def split: option.splits)

lemma ids_delete: "i \<notin> set (ids (deleteTaskRecursive forest i))"
  by (induction forest rule: preorder.induct) (auto simp: ids_def split: option.splits)

lemma includes_str_Nil: "includes_str s []"
  by (cases s) auto

lemma updateInfo_added: "updateInfo lc q n forest True = (forest, True)"
  by (induction forest rule: preorder.induct) (auto split: option.splits)

text \<open>
  C6: for an id that no node of the forest has, \<open>toggleTaskRecursive\<close> and
  \<open>deleteTaskRecursive\<close> return the forest as it is, and \<open>updateStatusRecursive\<close>
  returns it with \<open>found\<close> false, for either value of the flag.
\<close>

theorem not_found_unchanged:
  "i \<notin> set (ids forest) \<Longrightarrow>
     toggleTaskRecursive forest i = forest \<and>
     deleteTaskRecursive forest i = forest \<and>
     updateStatusRecursive forest i b = (forest, False)"
  by (simp add: toggle_absent delete_absent updateList_absent updateStatusRecursive_def)

theorem not_found_unchanged_witness:
  "js ''9'' \<notin> set (ids defaultTasks) \<and>
   toggleTaskRecursive defaultTasks (js ''9'') = defaultTasks \<and>
   deleteTaskRecursive defaultTasks (js ''9'') = defaultTasks \<and>
   updateStatusRecursive defaultTasks (js ''9'') True = (defaultTasks, False)"
proof -
  have h: "js ''9'' \<notin> set (ids defaultTasks)"
    by (simp add: ids_def defaultTasks_def)
  show ?thesis
    using h not_found_unchanged [OF h, of True] by simp
qed

text \<open>
  C8: deleting an id twice gives what deleting it once gives, for every forest and id.
\<close>

theorem delete_idempotent:
  "deleteTaskRecursive (deleteTaskRecursive forest i) i = deleteTaskRecursive forest i"
  by (rule delete_absent) (rule ids_delete)

theorem delete_idempotent_witness:
  "deleteTaskRecursive (deleteTaskRecursive defaultTasks (js ''2'')) (js ''2'') =
     [Task (js ''1'') (js ''Review project requirements'') False HIGH 0 (Some []),
      Task (js ''3'') (js ''Buy coffee beans'') True LOW 0 None]"
  using delete_idempotent [of defaultTasks "js ''2''"] by (simp add: defaultTasks_def)

text \<open>
  C10: on a forest with at least one task, the empty query makes
  \<open>addSubtaskRecursive\<close> return success and the forest with the new task appended as
  the last subtask of the first top-level task; the rest of the forest is as it was.
\<close>

theorem empty_query_first_task:
  "addSubtaskRecursive lc (t # rest) [] newSubtask =
     (Task (id_task t) (title t) (isCompleted t) (priority t) (createdAt t)
        (Some (children t @ [newSubtask])) # rest, True)"
  by (cases t)
     (auto simp: addSubtaskRecursive_def isMatch_def includes_str_Nil lowerCase_def
        updateInfo_added children_def split: option.splits)

theorem empty_query_first_task_witness:
  "addSubtaskRecursive latinLower defaultTasks []
     (Task (js ''4'') (js ''Read documentation'') False MEDIUM 0 (Some [])) =
     ([Task (js ''1'') (js ''Review project requirements'') False HIGH 0
        (Some [Task (js ''2'') (js ''Check email specs'') False MEDIUM 0 None,
               Task (js ''4'') (js ''Read documentation'') False MEDIUM 0 (Some [])]),
      Task (js ''3'') (js ''Buy coffee beans'') True LOW 0 None], True)"
  using empty_query_first_task
    [of latinLower "Task (js ''1'') (js ''Review project requirements'') False HIGH 0
        (Some [Task (js ''2'') (js ''Check email specs'') False MEDIUM 0 None])"
        "[Task (js ''3'') (js ''Buy coffee beans'') True LOW 0 None]"
        "Task (js ''4'') (js ''Read documentation'') False MEDIUM 0 (Some [])"]
  by (simp add: defaultTasks_def children_def)

subsection \<open>Removal by id or title\<close>

lemma matchTitle_absent: "\<not> matchTitle lc None t"
  by (simp add: matchTitle_def)

lemma matchTitle_empty: "\<not> matchTitle lc (Some []) t"
  by (simp add: matchTitle_def)

lemma filterList_no_match:
  "(\<And>t. \<not> matches lc taskId searchTitle t) \<Longrightarrow>
     filterList lc taskId searchTitle l acc n = (acc @ l, n)"
  by (induction lc taskId searchTitle l acc n rule: filterList.induct)
     (auto simp: matches_def split: option.splits)

lemma filterList_empty_title:
  "filterList lc taskId (Some []) l acc n = filterList lc taskId None l acc n"
  by (induction lc taskId "None :: jsString option" l acc n rule: filterList.induct)
     (auto simp: matchTitle_absent matchTitle_empty split: option.splits prod.splits)

text \<open>
  C5: the title test of \<open>findAndRemoveRecursive\<close> matches no task when the title
  argument is absent or empty, so the empty title removes what the absent one removes;
  with neither argument given the forest comes back as it is and the count is 0.
\<close>

theorem remove_needs_nonempty:
  "\<not> matchTitle lc None t \<and> \<not> matchTitle lc (Some []) t \<and>
   findAndRemoveRecursive lc forest taskId (Some []) = findAndRemoveRecursive lc forest taskId None \<and>
   findAndRemoveRecursive lc forest None None = (forest, 0)"
  by (simp add: matchTitle_absent matchTitle_empty findAndRemoveRecursive_def
        filterList_empty_title filterList_no_match matches_def matchId_def)

theorem remove_needs_nonempty_witness:
  "findAndRemoveRecursive latinLower defaultTasks None (Some []) = (defaultTasks, 0)"
  using remove_needs_nonempty [of latinLower "hd defaultTasks" defaultTasks None] by simp

subsection \<open>The list of nodes determines the forest\<close>

lemma walk_depth: "e \<in> set (walk anc l) \<Longrightarrow> length anc \<le> length (fst e)"
  by (induction anc l rule: walk.induct) (fastforce split: option.splits)+

lemma walk_Cons:
  "walk anc (t # rest) =
     (anc, shallow t) # walk (anc @ [shallow t]) (children t) @ walk anc rest"
  by (cases t) (simp add: children_def split: option.splits)

lemma walk_head: "walk anc l = [] \<or> fst (hd (walk anc l)) = anc"
  by (cases l) (simp_all add: walk_Cons)

lemma walk_Nil: "walk anc l = [] \<longleftrightarrow> l = []"
  by (cases l) (simp_all add: walk_Cons)

lemma split_deeper:
  assumes "\<forall>e \<in> set xs. n < length (fst e)" and "ys = [] \<or> length (fst (hd ys)) = n"
  shows "takeWhile (\<lambda>e. n < length (fst e)) (xs @ ys) = xs"
    and "dropWhile (\<lambda>e. n < length (fst e)) (xs @ ys) = ys"
  using assms by (cases ys; simp add: takeWhile_append2 dropWhile_append2)+

lemma walk_sub_deeper:
  "e \<in> set (walk (anc @ [x]) l) \<Longrightarrow> length anc < length (fst e)"
  using walk_depth [of e "anc @ [x]" l] by simp

lemma walk_rest_head: "walk anc l = [] \<or> length (fst (hd (walk anc l))) = length anc"
  using walk_head [of anc l] by auto

lemma shallow_eq:
  "shallow (Task i1 t1 c1 p1 a1 s1) = shallow (Task i2 t2 c2 p2 a2 s2) \<longleftrightarrow>
     i1 = i2 \<and> t1 = t2 \<and> c1 = c2 \<and> p1 = p2 \<and> a1 = a2 \<and> (s1 = None \<longleftrightarrow> s2 = None)"
  by (auto split: option.splits)

lemma walk_inject: "walk anc f = walk anc g \<Longrightarrow> f = g"
proof (induction anc f arbitrary: g rule: walk.induct)
  case (1 anc)
  then show ?case using walk_Nil [of anc g] by simp
next
  case (2 anc tid ttl c p ca subs rest)
  let ?t = "Task tid ttl c p ca subs"
  from "2.prems" have "g \<noteq> []" by auto
  then obtain t' rest' where "g = t' # rest'"
    by (cases g) auto
  then obtain tid' ttl' c' p' ca' subs' where g: "g = Task tid' ttl' c' p' ca' subs' # rest'"
    by (cases t') auto
  let ?t' = "Task tid' ttl' c' p' ca' subs'"
  let ?S = "case subs of Some l \<Rightarrow> walk (anc @ [shallow ?t]) l | None \<Rightarrow> []"
  let ?S' = "case subs' of Some l \<Rightarrow> walk (anc @ [shallow ?t']) l | None \<Rightarrow> []"
  have sh: "shallow ?t = shallow ?t'" and tl: "?S @ walk anc rest = ?S' @ walk anc rest'"
    using "2.prems" g by simp_all
  have d: "\<forall>e \<in> set ?S. length anc < length (fst e)" "\<forall>e \<in> set ?S'. length anc < length (fst e)"
    by (auto split: option.splits dest: walk_sub_deeper)
  have S: "?S = ?S'"
    using split_deeper(1) [OF d(1) walk_rest_head [of anc rest]]
      split_deeper(1) [OF d(2) walk_rest_head [of anc rest']] tl by simp
  have R: "walk anc rest = walk anc rest'"
    using split_deeper(2) [OF d(1) walk_rest_head [of anc rest]]
      split_deeper(2) [OF d(2) walk_rest_head [of anc rest']] tl by simp
  have rest: "rest = rest'" using "2.IH"(2) [OF R] .
  have subs: "subs = subs'"
  proof (cases subs)
    case None
    have "(subs = None) = (subs' = None)" using sh by (simp only: shallow_eq)
    then show ?thesis using None by simp
  next
    case (Some l)
    have "(subs = None) = (subs' = None)" using sh by (simp only: shallow_eq)
    then obtain l' where l': "subs' = Some l'" using Some by auto
    have "walk (anc @ [shallow ?t]) l = walk (anc @ [shallow ?t]) l'"
      using S Some l' sh by simp
    then show ?thesis using "2.IH"(1) [OF Some] Some l' by simp
  qed
  have "tid = tid' \<and> ttl = ttl' \<and> c = c' \<and> p = p' \<and> ca = ca'"
    using sh by (simp only: shallow_eq)
  then show ?case using g rest subs by simp
qed

subsection \<open>Every match is removed, with its subtree\<close>

lemma walk_append: "walk anc (xs @ ys) = walk anc xs @ walk anc ys"
  by (induction anc xs rule: walk.induct) (auto split: option.splits)

lemma shallow_subs: "shallow (Task tid ttl c p ca (Some l)) = shallow (Task tid ttl c p ca (Some l'))"
  by simp

lemma matches_shallow: "matches lc taskId searchTitle (shallow t) = matches lc taskId searchTitle t"
  by (cases t) (auto simp: matches_def matchId_def matchTitle_def split: option.splits)

text \<open>With arguments that are given and not empty, the test is the one of the two rules.\<close>

lemma matches_given:
  "i \<noteq> [] \<Longrightarrow> matches lc (Some i) None t \<longleftrightarrow> id_task t = i"
  "q \<noteq> [] \<Longrightarrow>
     matches lc None (Some q) t \<longleftrightarrow> includes_str (lowerCase lc (title t)) (lowerCase lc q)"
  "i \<noteq> [] \<Longrightarrow> q \<noteq> [] \<Longrightarrow>
     matches lc (Some i) (Some q) t \<longleftrightarrow>
       id_task t = i \<or> includes_str (lowerCase lc (title t)) (lowerCase lc q)"
  by (auto simp: matches_def matchId_def matchTitle_def)

lemma survives_pair: "survives P (anc, t) \<longleftrightarrow> \<not> P t \<and> list_all (\<lambda>a. \<not> P a) anc"
  by (simp add: survives_def)

lemma topMatch_pair: "topMatch P (anc, t) \<longleftrightarrow> P t \<and> list_all (\<lambda>a. \<not> P a) anc"
  by (simp add: topMatch_def)

lemma walk_under_match:
  "\<not> list_all (\<lambda>a. \<not> P a) anc \<Longrightarrow> filter (survives P) (walk anc l) = [] \<and> filter (topMatch P) (walk anc l) = []"
  by (induction anc l rule: walk.induct) (auto simp: survives_pair topMatch_pair split: option.splits)

lemma filterList_walk:
  "list_all (\<lambda>a. \<not> matches lc taskId searchTitle a) anc \<Longrightarrow>
     walk anc (fst (filterList lc taskId searchTitle l acc n)) =
       walk anc acc @ filter (survives (matches lc taskId searchTitle)) (walk anc l) \<and>
     snd (filterList lc taskId searchTitle l acc n) =
       n + length (filter (topMatch (matches lc taskId searchTitle)) (walk anc l))"
proof (induction lc taskId searchTitle l acc n arbitrary: anc rule: filterList.induct)
  case (1 lc taskId searchTitle acc count)
  then show ?case by simp
next
  case (2 lc taskId searchTitle tid ttl c p ca subs rest acc count)
  let ?t = "Task tid ttl c p ca subs"
  let ?P = "matches lc taskId searchTitle"
  show ?case
  proof (cases "?P ?t")
    case True
    then have m: "matchId taskId ?t \<or> matchTitle lc searchTitle ?t" by (simp add: matches_def)
    have sh: "?P (shallow ?t)" using True by (simp only: matches_shallow)
    have under: "\<not> list_all (\<lambda>a. \<not> ?P a) (anc @ [shallow ?t])" using sh by simp
    have ih: "walk anc (fst (filterList lc taskId searchTitle rest acc (count + 1))) =
       walk anc acc @ filter (survives ?P) (walk anc rest) \<and>
     snd (filterList lc taskId searchTitle rest acc (count + 1)) =
       count + 1 + length (filter (topMatch ?P) (walk anc rest))"
      using "2.IH"(1) [OF m "2.prems"] .
    show ?thesis
      using ih m sh "2.prems" walk_under_match [OF under]
      by (auto simp: survives_pair topMatch_pair split: option.splits)
  next
    case False
    then have m: "\<not> (matchId taskId ?t \<or> matchTitle lc searchTitle ?t)" by (simp add: matches_def)
    have sh: "\<not> ?P (shallow ?t)" using False unfolding matches_shallow .
    show ?thesis
    proof (cases subs)
      case None
      show ?thesis
        using "2.IH"(2) [OF m None "2.prems"] m sh None "2.prems"
        by (auto simp: survives_pair topMatch_pair walk_append)
    next
      case (Some l)
      obtain l' count1 where fl: "filterList lc taskId searchTitle l [] count = (l', count1)"
        by (cases "filterList lc taskId searchTitle l [] count")
      have anc': "list_all (\<lambda>a. \<not> ?P a) (anc @ [shallow ?t])"
        using "2.prems" sh by simp
      have ih1: "walk (anc @ [shallow ?t]) l' = filter (survives ?P) (walk (anc @ [shallow ?t]) l)"
        and c1: "count1 = count + length (filter (topMatch ?P) (walk (anc @ [shallow ?t]) l))"
        using "2.IH"(3) [OF m Some anc'] fl by simp_all
      have ih2: "walk anc (fst (filterList lc taskId searchTitle rest (acc @ [Task tid ttl c p ca (Some l')]) count1)) =
                   walk anc (acc @ [Task tid ttl c p ca (Some l')]) @ filter (survives ?P) (walk anc rest) \<and>
                 snd (filterList lc taskId searchTitle rest (acc @ [Task tid ttl c p ca (Some l')]) count1) =
                   count1 + length (filter (topMatch ?P) (walk anc rest))"
        using "2.IH"(4) [OF m Some fl [symmetric] "2.prems"] .
      show ?thesis
        using ih1 c1 ih2 m sh Some fl "2.prems"
        by (auto simp: survives_pair topMatch_pair walk_append)
    qed
  qed
qed

text \<open>
  C2: whatever the lower-casing function, the nodes left by \<open>findAndRemoveRecursive\<close>
  are the nodes of the forest that do not
  match and have no matching ancestor, each with its fields, its ancestors and its place
  in the order kept. So every matching node is gone at any depth, and below a matching
  node everything is gone, matching or not. The count is the number of matching nodes
  with no matching ancestor: a node removed because an ancestor matched is not counted.
\<close>

theorem remove_all_matches:
  "findAndRemoveRecursive lc forest taskId searchTitle = (updatedTasks, removedCount) \<Longrightarrow>
     walk [] updatedTasks = filter (survives (matches lc taskId searchTitle)) (walk [] forest) \<and>
     removedCount = length (filter (topMatch (matches lc taskId searchTitle)) (walk [] forest))"
  using filterList_walk [of lc taskId searchTitle "[]" forest "[]" 0]
  by (simp add: findAndRemoveRecursive_def)

theorem remove_all_matches_witness:
  "findAndRemoveRecursive latinLower cafeTasks None (Some (js (''caf'' @ [CHR 0xE9]))) =
     ([Task (js ''4'') (js ''milk'') False MEDIUM 0 (Some [])], 2) \<and>
   walk [] [Task (js ''4'') (js ''milk'') False MEDIUM 0 (Some [])] =
     filter (survives (matches latinLower None (Some (js (''caf'' @ [CHR 0xE9]))))) (walk [] cafeTasks) \<and>
   (2 :: nat) = length (filter (topMatch (matches latinLower None (Some (js (''caf'' @ [CHR 0xE9]))))) (walk [] cafeTasks))"
proof -
  have h: "findAndRemoveRecursive latinLower cafeTasks None (Some (js (''caf'' @ [CHR 0xE9]))) =
             ([Task (js ''4'') (js ''milk'') False MEDIUM 0 (Some [])], 2)"
    by (simp add: findAndRemoveRecursive_def cafeTasks_def matchId_def matchTitle_def
          lowerCase_latin_js includes_js js_inject latinLowerChar_def)
  show ?thesis
    using h remove_all_matches [OF h] by simp
qed

subsection \<open>The subtask goes to the first match\<close>

lemma firstMatch_append:
  "firstMatch P (xs @ ys) =
     (case firstMatch P xs of
        Some k \<Rightarrow> Some k
      | None \<Rightarrow> (case firstMatch P ys of Some k \<Rightarrow> Some (length xs + k) | None \<Rightarrow> None))"
  by (induction xs) (auto split: option.splits)

lemma firstMatch_less: "firstMatch P xs = Some k \<Longrightarrow> k < length xs"
  by (induction xs arbitrary: k) (auto split: if_splits option.splits)

lemma updateInfo_first:
  "updateInfo lc q n l False =
     (case firstMatch (isMatch lc q) (preorder l) of
        None \<Rightarrow> (l, False)
      | Some k \<Rightarrow> (appendToNode k n l, True))"
proof (induction l rule: preorder.induct)
  case 1
  then show ?case by simp
next
  case (2 tid ttl c p ca subs rest)
  let ?t = "Task tid ttl c p ca subs"
  show ?case
  proof (cases "isMatch lc q ?t")
    case True
    then show ?thesis by (simp add: updateInfo_added split: option.splits)
  next
    case False
    show ?thesis
    proof (cases subs)
      case None
      then show ?thesis using False "2.IH"(2)
        by (simp split: option.splits)
    next
      case (Some x)
      show ?thesis
      proof (cases "firstMatch (isMatch lc q) (preorder x)")
        case None
        then show ?thesis using False Some "2.IH"
          by (auto simp: firstMatch_append split: option.splits)
      next
        case (Some k)
        then show ?thesis using False \<open>subs = Some x\<close> "2.IH"(1) firstMatch_less [OF Some]
          by (simp add: firstMatch_append updateInfo_added split: option.splits)
      qed
    qed
  qed
qed

lemma preorder_append: "preorder (xs @ ys) = preorder xs @ preorder ys"
  by (induction xs rule: preorder.induct) (auto split: option.splits)

lemma appendToNode_length:
  "k < length (preorder l) \<Longrightarrow>
     length (preorder (appendToNode k n l)) = length (preorder l) + length (preorder [n])"
  by (induction k n l rule: appendToNode.induct)
     (auto simp: preorder_append split: option.splits)

lemma appendToNode_children:
  "k < length (preorder l) \<Longrightarrow>
     children (preorder (appendToNode k n l) ! k) = children (preorder l ! k) @ [n]"
proof (induction k n l rule: appendToNode.induct)
  case (1 k newTask)
  then show ?case by simp
next
  case (2 k newTask tid ttl c p ca subs rest)
  show ?case
  proof (cases subs)
    case None
    then show ?thesis using 2 by (cases k) (auto simp: children_def)
  next
    case (Some l)
    show ?thesis
    proof (cases k)
      case 0
      then show ?thesis using Some by (simp add: children_def)
    next
      case (Suc j)
      show ?thesis
      proof (cases "j < length (preorder l)")
        case True
        then show ?thesis using Some Suc "2.IH"(2) [OF Some] appendToNode_length [OF True, of newTask]
          by (simp add: nth_append)
      next
        case False
        then show ?thesis using Some Suc "2.IH"(3) [OF Some] "2.prems"
          by (simp add: nth_append)
      qed
    qed
  qed
qed

text \<open>
  C1: \<open>addSubtaskRecursive\<close> looks for the first node of the depth-first order whose id
  is the query or whose title includes it, both in lower case, whatever the lower-casing
  function. With no such
  node it returns the forest as it is and \<open>False\<close>. Otherwise it returns \<open>True\<close> and the
  forest with the new task appended to the subtasks of that node and of no other: the
  forest grows by the nodes of the new task, and the subtasks of the node at that
  position are the old ones followed by the new task.
\<close>

theorem insert_first_match:
  "addSubtaskRecursive lc forest parentQuery newSubtask =
     (case firstMatch (isMatch lc parentQuery) (preorder forest) of
        None \<Rightarrow> (forest, False)
      | Some k \<Rightarrow> (appendToNode k newSubtask forest, True)) \<and>
   (\<forall>k. firstMatch (isMatch lc parentQuery) (preorder forest) = Some k \<longrightarrow>
      length (preorder (appendToNode k newSubtask forest)) =
        length (preorder forest) + length (preorder [newSubtask]) \<and>
      children (preorder (appendToNode k newSubtask forest) ! k) =
        children (preorder forest ! k) @ [newSubtask])"
  using updateInfo_first [of lc parentQuery newSubtask forest]
  by (auto simp: addSubtaskRecursive_def dest!: firstMatch_less
        intro: appendToNode_length appendToNode_children)

theorem insert_first_match_witness:
  "firstMatch (isMatch latinLower (js ''A'')) (preorder defaultTasks) = Some 1 \<and>
   addSubtaskRecursive latinLower defaultTasks (js ''A'')
     (Task (js ''4'') (js ''Read documentation'') False MEDIUM 0 (Some [])) =
     ([Task (js ''1'') (js ''Review project requirements'') False HIGH 0
         (Some [Task (js ''2'') (js ''Check email specs'') False MEDIUM 0
                  (Some [Task (js ''4'') (js ''Read documentation'') False MEDIUM 0 (Some [])])]),
       Task (js ''3'') (js ''Buy coffee beans'') True LOW 0 None], True) \<and>
   addSubtaskRecursive latinLower
     [Task (js ''7'') (js (''CAF'' @ [CHR 0xC9])) False MEDIUM 0 None]
     (js (''caf'' @ [CHR 0xE9]))
     (Task (js ''8'') (js ''sugar'') False MEDIUM 0 (Some [])) =
     ([Task (js ''7'') (js (''CAF'' @ [CHR 0xC9])) False MEDIUM 0
         (Some [Task (js ''8'') (js ''sugar'') False MEDIUM 0 (Some [])])], True)"
proof -
  have h: "firstMatch (isMatch latinLower (js ''A'')) (preorder defaultTasks) = Some 1"
    by (simp add: defaultTasks_def isMatch_def lowerCase_latin_js includes_js latinLowerChar_def)
  have k: "firstMatch (isMatch latinLower (js (''caf'' @ [CHR 0xE9])))
             (preorder [Task (js ''7'') (js (''CAF'' @ [CHR 0xC9])) False MEDIUM 0 None]) = Some 0"
    by (simp add: isMatch_def lowerCase_latin_js includes_js latinLowerChar_def)
  show ?thesis
    using h k
      insert_first_match
        [of latinLower defaultTasks "js ''A''"
          "Task (js ''4'') (js ''Read documentation'') False MEDIUM 0 (Some [])"]
      insert_first_match
        [of latinLower "[Task (js ''7'') (js (''CAF'' @ [CHR 0xC9])) False MEDIUM 0 None]"
          "js (''caf'' @ [CHR 0xE9])" "Task (js ''8'') (js ''sugar'') False MEDIUM 0 (Some [])"]
    by (simp add: defaultTasks_def)
qed

subsection \<open>Setting the flag of one node\<close>

lemma setCompleted_shallow: "setCompleted i b (shallow t) = shallow (setCompleted i b t)"
  by (cases t) simp

lemma setCompleted_other: "id_task t \<noteq> i \<Longrightarrow> setCompleted i b t = t"
  by (cases t) simp

lemma walk_setCompleted_absent:
  "i \<notin> set (ids l) \<Longrightarrow>
     walk (map (setCompleted i b) anc) l =
       map (map_prod (map (setCompleted i b)) (setCompleted i b)) (walk anc l)"
proof (induction anc l rule: walk.induct)
  case (1 anc)
  then show ?case by simp
next
  case (2 anc tid ttl c p ca subs rest)
  show ?case
  proof (cases subs)
    case None
    then show ?thesis using 2 by (auto simp: ids_def)
  next
    case (Some l)
    have "walk (map (setCompleted i b) (anc @ [shallow (Task tid ttl c p ca subs)])) l =
       map (map_prod (map (setCompleted i b)) (setCompleted i b))
         (walk (anc @ [shallow (Task tid ttl c p ca subs)]) l)"
      using "2.IH"(1) [OF Some] "2.prems" Some by (auto simp: ids_def)
    then show ?thesis using 2 Some by (auto simp: ids_def)
  qed
qed


lemma updateList_walk:
  "length (filter (\<lambda>t. id_task t = i) (preorder l)) \<le> 1 \<Longrightarrow>
     walk (map (setCompleted i b) anc) (fst (updateList i b l found)) =
       map (map_prod (map (setCompleted i b)) (setCompleted i b)) (walk anc l) \<and>
     snd (updateList i b l found) = (found \<or> i \<in> set (ids l))"
proof (induction i b l found arbitrary: anc rule: updateList.induct)
  case (1 taskId completed found)
  then show ?case by (simp add: ids_def)
next
  case (2 taskId completed tid ttl c p ca subs rest found)
  let ?f = "setCompleted taskId completed"
  let ?F = "map_prod (map ?f) ?f"
  let ?t = "Task tid ttl c p ca subs"
  show ?case
  proof (cases "tid = taskId")
    case True
    have none_sub: "taskId \<notin> set (ids (children ?t))"
      using "2.prems" True by (auto simp: ids_def children_def filter_empty_conv split: option.splits)
    have none_rest: "length (filter (\<lambda>t. id_task t = taskId) (preorder rest)) \<le> 1"
      using "2.prems" True by simp
    have ih: "walk (map ?f anc) (fst (updateList taskId completed rest True)) = map ?F (walk anc rest)"
      using "2.IH"(1) [OF True none_rest] by simp
    have sub: "walk (map ?f (anc @ [shallow ?t])) (children ?t) =
                 map ?F (walk (anc @ [shallow ?t]) (children ?t))"
      by (rule walk_setCompleted_absent [OF none_sub])
    show ?thesis
      using True ih sub "2.IH"(1) [OF True none_rest, of anc]
      by (auto simp: ids_def children_def split: option.splits prod.splits)
  next
    case False
    have rest_le: "length (filter (\<lambda>t. id_task t = taskId) (preorder rest)) \<le> 1"
      using "2.prems" False by simp
    show ?thesis
    proof (cases subs)
      case None
      show ?thesis
        using False None "2.IH"(2) [OF False None rest_le, of anc]
        by (auto simp: ids_def split: prod.splits)
    next
      case (Some l)
      have l_le: "length (filter (\<lambda>t. id_task t = taskId) (preorder l)) \<le> 1"
        using "2.prems" False Some by simp
      obtain l' found1 where ul: "updateList taskId completed l found = (l', found1)"
        by (cases "updateList taskId completed l found")
      have ih1: "walk (map ?f (anc @ [shallow ?t])) l' = map ?F (walk (anc @ [shallow ?t]) l)"
        and f1: "found1 = (found \<or> taskId \<in> set (ids l))"
        using "2.IH"(3) [OF False Some l_le, of "anc @ [shallow ?t]"] ul by simp_all
      have ih2: "walk (map ?f anc) (fst (updateList taskId completed rest found1)) =
                   map ?F (walk anc rest) \<and>
                 snd (updateList taskId completed rest found1) =
                   (found1 \<or> taskId \<in> set (ids rest))"
        using "2.IH"(4) [OF False Some ul [symmetric] rest_le] .
      show ?thesis
        using False Some ul ih1 f1 ih2
        by (auto simp: ids_def split: prod.splits)
    qed
  qed
qed

text \<open>
  C7: when exactly one node of the forest has the id, \<open>updateStatusRecursive\<close> returns
  \<open>found\<close> true, and the nodes of its forest are the nodes of the old one, in the same
  order and under the same ancestors, with the completion flag of the node that has the
  id set to the value given and every other field of every node as it was.
\<close>

theorem set_completion_frame:
  "length (filter (\<lambda>t. id_task t = taskId) (preorder forest)) = 1 \<Longrightarrow>
   updateStatusRecursive forest taskId completed = (updatedTasks, found) \<Longrightarrow>
     found \<and>
     walk [] updatedTasks =
       map (map_prod (map (setCompleted taskId completed)) (setCompleted taskId completed))
         (walk [] forest)"
proof -
  assume one: "length (filter (\<lambda>t. id_task t = taskId) (preorder forest)) = 1"
    and res: "updateStatusRecursive forest taskId completed = (updatedTasks, found)"
  have "filter (\<lambda>t. id_task t = taskId) (preorder forest) \<noteq> []"
    using one by auto
  then have mem: "taskId \<in> set (ids forest)"
    by (auto simp: ids_def filter_empty_conv)
  from one have le: "length (filter (\<lambda>t. id_task t = taskId) (preorder forest)) \<le> 1"
    by simp
  show ?thesis
    using updateList_walk [OF le, of completed "[]" False] res mem
    by (simp add: updateStatusRecursive_def)
qed

theorem set_completion_frame_witness:
  "length (filter (\<lambda>t. id_task t = js ''2'') (preorder defaultTasks)) = 1 \<and>
   updateStatusRecursive defaultTasks (js ''2'') True =
     ([Task (js ''1'') (js ''Review project requirements'') False HIGH 0
         (Some [Task (js ''2'') (js ''Check email specs'') True MEDIUM 0 None]),
       Task (js ''3'') (js ''Buy coffee beans'') True LOW 0 None], True) \<and>
   walk []
     [Task (js ''1'') (js ''Review project requirements'') False HIGH 0
        (Some [Task (js ''2'') (js ''Check email specs'') True MEDIUM 0 None]),
      Task (js ''3'') (js ''Buy coffee beans'') True LOW 0 None] =
     map (map_prod (map (setCompleted (js ''2'') True)) (setCompleted (js ''2'') True))
       (walk [] defaultTasks)"
proof -
  have one: "length (filter (\<lambda>t. id_task t = js ''2'') (preorder defaultTasks)) = 1"
    by (simp add: defaultTasks_def)
  have res: "updateStatusRecursive defaultTasks (js ''2'') True =
     ([Task (js ''1'') (js ''Review project requirements'') False HIGH 0
         (Some [Task (js ''2'') (js ''Check email specs'') True MEDIUM 0 None]),
       Task (js ''3'') (js ''Buy coffee beans'') True LOW 0 None], True)"
    by (simp add: updateStatusRecursive_def defaultTasks_def)
  show ?thesis
    using one res set_completion_frame [OF one res] by simp
qed

subsection \<open>The calls of one reply\<close>












text \<open>What \<open>getTasks\<close> answers, in any state: the projection of the handler's constant.\<close>

lemma getTasks_response:
  "call_name call = js ''getTasks'' \<Longrightarrow>
     responseParts (executeCall e closureTasks call st) =
       responseParts st @
         [\<lparr>resp_name = js ''getTasks'', resp_response = TaskList (simplify closureTasks),
           resp_id = call_id call\<rparr>]"
  by (simp add: executeCall_def Let_def executeGetTasks_def)

text \<open>
  C3: in the batch of an \<open>addTask\<close> for the title X followed by \<open>getTasks\<close>, run from the
  empty forest, the new task is in the forest after the round, and the answer of
  \<open>getTasks\<close> is the empty list: the forest of the render that created the handler,
  without the effect of the call before it.
\<close>

theorem get_tasks_reads_render_snapshot:
  "forestAfter sampleEnv []
     (handleSendMessage_calls sampleEnv
        [\<lparr>call_name = js ''addTask'', call_args = Some (noArgs\<lparr>arg_title := Some (js ''X'')\<rparr>),
          call_id = js ''c1''\<rparr>,
         \<lparr>call_name = js ''getTasks'', call_args = Some noArgs, call_id = js ''c2''\<rparr>] []) =
     Inr [Task (js ''id0'') (js ''X'') False (js ''medium'') 0 (Some [])] \<and>
   responseParts
     (handleSendMessage_calls sampleEnv
        [\<lparr>call_name = js ''addTask'', call_args = Some (noArgs\<lparr>arg_title := Some (js ''X'')\<rparr>),
          call_id = js ''c1''\<rparr>,
         \<lparr>call_name = js ''getTasks'', call_args = Some noArgs, call_id = js ''c2''\<rparr>] []) =
     [\<lparr>resp_name = js ''addTask'',
       resp_response = Result (js ''Task added successfully with ID: id0''),
       resp_id = js ''c1''\<rparr>,
      \<lparr>resp_name = js ''getTasks'', resp_response = TaskList [], resp_id = js ''c2''\<rparr>]"
  by (simp add: handleSendMessage_calls_def forestAfter_def executeCall_def executeGetTasks_def
        startOfLoop_def sampleEnv_def noArgs_def priorityOrMedium_def Let_def MEDIUM_def
        asTask_def js_append)

subsection \<open>No check of the arguments\<close>




end
